theory Spec2Isabelle
  imports Main "HOL-Library.Word"
begin

section \<open>The generic profiling enumerator \<open>ProfilerEnum\<close>\<close>

text \<open>
  A shallow embedding of the class template \<open>ProfilerEnum< EnumInterface, Element,
  pEnumInterfaceIID >\<close> of \<open>src/vm/profilingenumerators.h\<close>.

  \<^item> \<open>ULONG\<close> and \<open>LONG\<close> are 32-bit machine integers: \<open>32 word\<close>, whose \<open>+\<close> and
    \<open>-\<close> wrap around and whose order (\<open><\<close>, \<open>min\<close>) is the unsigned one.
  \<^item> The element type is the type variable \<open>'a\<close>; the interface identifiers are values
    of a type variable \<open>'iid\<close>.
  \<^item> A pointer argument that may be \<open>NULL\<close> is an \<open>option\<close>: \<open>None\<close> is \<open>NULL\<close>,
    \<open>Some v\<close> is a pointer to a cell that holds \<open>v\<close> before the call. Every method
    returns the contents of its out-cells after the call.
  \<^item> The caller's element buffer \<open>Element elements[]\<close> is the memory behind the pointer:
    a function from the offset to the element stored there.
  \<^item> Objects live in a store, a map from addresses to object states; methods that only
    touch the fields of \<open>this\<close> take the state of \<open>this\<close> and return the state after
    the call.
\<close>

type_synonym ULONG = "32 word"
type_synonym LONG = "32 word"
type_synonym addr = nat

datatype HRESULT = S_OK | S_FALSE | E_INVALIDARG | E_OUTOFMEMORY | E_NOINTERFACE

text \<open>
  How a piece of code ends: it returns a value, it throws (\<open>AllocateBlockThrowing\<close>,
  \<open>operator new\<close>), or it indexes an array outside its bounds, where C++ gives no
  result at all.
\<close>

datatype 'r outcome = Returns 'r | Throws | OutOfBounds

record 'a ProfilerEnum =
  m_currentElement :: ULONG
  m_elements :: "'a list"
  m_refCount :: LONG

type_synonym 'a store = "addr \<rightharpoonup> 'a ProfilerEnum"

subsection \<open>The array class \<open>CDynArray\<close>\<close>

text \<open>
  Modelled from the spec: the array class \<open>CDynArray\<close> is declared outside this header.
  The spec calls it an ordered sequence of elements; it is a list here, with the
  operations the header uses. \<open>Count()\<close> has the C++ type \<open>int\<close>, so an array holds
  fewer than \<open>2 ^ 31\<close> elements (\<open>CDynArray_ok\<close>); the header converts the count to
  \<open>ULONG\<close>. Indexing outside the array has no defined result.
\<close>

definition CDynArray_ok :: "'a list \<Rightarrow> bool" where
  "CDynArray_ok xs = (length xs < 2 ^ 31)"

definition Count :: "'a list \<Rightarrow> ULONG" where
  "Count xs = of_nat (length xs)"

text \<open>\<open>xs[i]\<close> as a value.\<close>

definition CDynArray_at :: "'a list \<Rightarrow> ULONG \<Rightarrow> 'a option" where
  "CDynArray_at xs i = (if unat i < length xs then Some (xs ! unat i) else None)"

text \<open>\<open>xs[i] = v\<close>.\<close>

definition CDynArray_set :: "'a list \<Rightarrow> ULONG \<Rightarrow> 'a \<Rightarrow> 'a list option" where
  "CDynArray_set xs i v = (if unat i < length xs then Some (xs[unat i := v]) else None)"

text \<open>
  Modelled from the spec: \<open>CDynArray::AllocateBlockThrowing\<close> is not in the source. It
  grows the array by \<open>n\<close> elements or throws when the memory cannot be allocated (the
  spec: construction fails if the copy cannot be allocated). Whether the allocation
  succeeds (\<open>ok\<close>) and what the fresh elements hold (\<open>d\<close>) are parameters.
\<close>

definition AllocateBlockThrowing :: "bool \<Rightarrow> 'a \<Rightarrow> 'a list \<Rightarrow> ULONG \<Rightarrow> 'a list outcome" where
  "AllocateBlockThrowing ok d xs n =
     (if ok then Returns (xs @ replicate (unat n) d) else Throws)"

subsection \<open>Construction\<close>

text \<open>The loop \<open>for (ULONG i = 0; i < count; ++i) m_elements[i] = (*elements)[i];\<close>\<close>

function ctor_loop :: "'a list \<Rightarrow> ULONG \<Rightarrow> ULONG \<Rightarrow> 'a list \<Rightarrow> 'a list outcome" where
  "ctor_loop elements count i dst =
     (if i < count then
        (case CDynArray_at elements i of
           None \<Rightarrow> OutOfBounds
         | Some v \<Rightarrow>
             (case CDynArray_set dst i v of
                None \<Rightarrow> OutOfBounds
              | Some dst' \<Rightarrow> ctor_loop elements count (i + 1) dst'))
      else Returns dst)"
  by pat_completeness auto
termination
proof (relation "measure (\<lambda>(elements, count, i, dst). unat count - unat i)")
  show "wf (measure (\<lambda>(elements :: 'a list, count :: ULONG, i :: ULONG, dst :: 'a list).
              unat count - unat i))"
    by simp
next
  fix elements :: "'a list" and count i :: ULONG and dst :: "'a list" and x2 x2a
  assume "i < count"
  then have "unat i < unat count" and "unat (i + 1) = Suc (unat i)"
    by unat_arith+
  then show "((elements, count, i + 1, x2a), elements, count, i, dst)
      \<in> measure (\<lambda>(elements, count, i, dst). unat count - unat i)"
    by simp
qed

text \<open>
  \<open>ProfilerEnum(CDynArray< Element >* elements)\<close>: the cursor starts at 0, the reference
  count at 1, and the elements are copied one by one into a block of the object's own.
  The default constructor \<open>ProfilerEnum()\<close> leaves the array empty.
\<close>

definition ProfilerEnum_ctor :: "bool \<Rightarrow> 'a \<Rightarrow> 'a list \<Rightarrow> 'a ProfilerEnum outcome" where
  "ProfilerEnum_ctor ok d elements =
     (let count = Count elements in
      case AllocateBlockThrowing ok d [] count of
        Throws \<Rightarrow> Throws
      | OutOfBounds \<Rightarrow> OutOfBounds
      | Returns blk \<Rightarrow>
          (case ctor_loop elements count 0 blk of
             Throws \<Rightarrow> Throws
           | OutOfBounds \<Rightarrow> OutOfBounds
           | Returns xs \<Rightarrow>
               Returns \<lparr>m_currentElement = 0, m_elements = xs, m_refCount = 1\<rparr>))"

definition ProfilerEnum_default_ctor :: "'a ProfilerEnum" where
  "ProfilerEnum_default_ctor = \<lparr>m_currentElement = 0, m_elements = [], m_refCount = 1\<rparr>"

subsection \<open>\<open>IUnknown\<close>\<close>

text \<open>\<open>InterlockedIncrement\<close> and \<open>InterlockedDecrement\<close> return the new value.\<close>

definition AddRef :: "'a ProfilerEnum \<Rightarrow> ULONG \<times> 'a ProfilerEnum" where
  "AddRef e = (let r = m_refCount e + 1 in (r, e\<lparr>m_refCount := r\<rparr>))"

text \<open>\<open>delete this\<close> leaves no object: the state after the call is \<open>None\<close>.\<close>

definition Release :: "'a ProfilerEnum \<Rightarrow> ULONG \<times> 'a ProfilerEnum option" where
  "Release e =
     (let refCount = m_refCount e - 1 in
      (refCount, if 0 = refCount then None else Some (e\<lparr>m_refCount := refCount\<rparr>)))"

text \<open>
  \<open>QueryInterface(id, pInterface)\<close>. The identifier \<open>*pEnumInterfaceIID\<close> of the
  template and the constant \<open>IID_IUnknown\<close> are parameters, and so is the address
  \<open>this\<close>. \<open>pInterface\<close> is dereferenced without a test: the argument is the cell's
  content, an address or \<open>None\<close> for \<open>NULL\<close>.
\<close>

definition QueryInterface ::
  "'iid \<Rightarrow> 'iid \<Rightarrow> addr \<Rightarrow> 'a ProfilerEnum \<Rightarrow> 'iid \<Rightarrow> addr option
     \<Rightarrow> HRESULT \<times> addr option \<times> 'a ProfilerEnum" where
  "QueryInterface pEnumInterfaceIID IID_IUnknown this e id' pInterface =
     (if pEnumInterfaceIID = id' then (S_OK, Some this, snd (AddRef e))
      else if IID_IUnknown = id' then (S_OK, Some this, snd (AddRef e))
      else (E_NOINTERFACE, None, e))"

subsection \<open>\<open>Next\<close>\<close>

text \<open>The loop \<open>for (ULONG i = 0; i < elementsToCopy; ++i) elements[i] = m_elements[m_currentElement + i];\<close>\<close>

function Next_loop ::
  "'a list \<Rightarrow> ULONG \<Rightarrow> ULONG \<Rightarrow> ULONG \<Rightarrow> (nat \<Rightarrow> 'a) \<Rightarrow> (nat \<Rightarrow> 'a) outcome" where
  "Next_loop xs cur elementsToCopy i buf =
     (if i < elementsToCopy then
        (case CDynArray_at xs (cur + i) of
           None \<Rightarrow> OutOfBounds
         | Some v \<Rightarrow> Next_loop xs cur elementsToCopy (i + 1) (buf(unat i := v)))
      else Returns buf)"
  by pat_completeness auto
termination
proof (relation "measure (\<lambda>(xs, cur, elementsToCopy, i, buf). unat elementsToCopy - unat i)")
  show "wf (measure (\<lambda>(xs :: 'a list, cur :: ULONG, elementsToCopy :: ULONG, i :: ULONG,
              buf :: nat \<Rightarrow> 'a). unat elementsToCopy - unat i))"
    by simp
next
  fix xs :: "'a list" and cur elementsToCopy i :: ULONG and buf :: "nat \<Rightarrow> 'a" and x2
  assume "i < elementsToCopy"
  then have "unat i < unat elementsToCopy" and "unat (i + 1) = Suc (unat i)"
    by unat_arith+
  then show "((xs, cur, elementsToCopy, i + 1, buf(unat i := x2)), xs, cur, elementsToCopy, i, buf)
      \<in> measure (\<lambda>(xs, cur, elementsToCopy, i, buf). unat elementsToCopy - unat i)"
    by simp
qed

text \<open>
  \<open>Next(elementsRequested, elements, elementsFetched)\<close> returns the result code, the
  buffer, the fetched-count cell and the object state after the call. The \<open>_ASSERTE\<close>
  lines are compiled out of a release build and are not part of the model; what they
  assert is the invariant \<open>cursor_in_range\<close> below.
\<close>

definition Next ::
  "'a ProfilerEnum \<Rightarrow> ULONG \<Rightarrow> (nat \<Rightarrow> 'a) option \<Rightarrow> ULONG option
     \<Rightarrow> (HRESULT \<times> (nat \<Rightarrow> 'a) option \<times> ULONG option \<times> 'a ProfilerEnum) outcome" where
  "Next e elementsRequested elements elementsFetched =
     (if elementsFetched = None \<and> 1 < elementsRequested then
        Returns (E_INVALIDARG, elements, elementsFetched, e)
      else if 0 = elementsRequested then
        Returns (S_OK, elements, (if elementsFetched \<noteq> None then Some 0 else None), e)
      else
        (case elements of
           None \<Rightarrow> Returns (E_INVALIDARG, elements, elementsFetched, e)
         | Some buf \<Rightarrow>
             (let elementsToCopy =
                    min elementsRequested (Count (m_elements e) - m_currentElement e)
              in case Next_loop (m_elements e) (m_currentElement e) elementsToCopy 0 buf of
                   Throws \<Rightarrow> Throws
                 | OutOfBounds \<Rightarrow> OutOfBounds
                 | Returns buf' \<Rightarrow>
                     Returns
                       (if elementsToCopy < elementsRequested then S_FALSE else S_OK,
                        Some buf',
                        (if elementsFetched \<noteq> None then Some elementsToCopy else None),
                        e\<lparr>m_currentElement := m_currentElement e + elementsToCopy\<rparr>))))"

subsection \<open>\<open>GetCount\<close>, \<open>Skip\<close>, \<open>Reset\<close>\<close>

definition GetCount ::
  "'a ProfilerEnum \<Rightarrow> ULONG option \<Rightarrow> HRESULT \<times> ULONG option \<times> 'a ProfilerEnum" where
  "GetCount e count =
     (if count = None then (E_INVALIDARG, count, e)
      else (S_OK, Some (Count (m_elements e) - m_currentElement e), e))"

definition Skip :: "'a ProfilerEnum \<Rightarrow> ULONG \<Rightarrow> HRESULT \<times> 'a ProfilerEnum" where
  "Skip e count =
     (let elementsToSkip = min count (Count (m_elements e) - m_currentElement e) in
      (if elementsToSkip < count then S_FALSE else S_OK,
       e\<lparr>m_currentElement := m_currentElement e + elementsToSkip\<rparr>))"

definition Reset :: "'a ProfilerEnum \<Rightarrow> HRESULT \<times> 'a ProfilerEnum" where
  "Reset e = (S_OK, e\<lparr>m_currentElement := 0\<rparr>)"

subsection \<open>\<open>Clone\<close>\<close>

text \<open>
  \<open>new ProfilerEnum< ... >(&m_elements)\<close>: \<open>operator new\<close> hands out the address
  \<open>newp\<close>, or throws when it is \<open>None\<close>; the constructor then runs and may throw in its
  turn. On success the store holds the new object at the new address.
\<close>

definition new_ProfilerEnum ::
  "'a store \<Rightarrow> addr option \<Rightarrow> bool \<Rightarrow> 'a \<Rightarrow> 'a list \<Rightarrow> (addr \<times> 'a store) outcome" where
  "new_ProfilerEnum h newp ok d elements =
     (case newp of
        None \<Rightarrow> Throws
      | Some p \<Rightarrow>
          (case ProfilerEnum_ctor ok d elements of
             Throws \<Rightarrow> Throws
           | OutOfBounds \<Rightarrow> OutOfBounds
           | Returns obj \<Rightarrow> Returns (p, h(p \<mapsto> obj))))"

text \<open>
  \<open>Clone(pInterface)\<close> on the object at address \<open>this\<close>. \<open>pInterface\<close> is \<open>None\<close> for
  \<open>NULL\<close>, else the content of the cell it points to. \<open>EX_TRY\<close>/\<open>EX_CATCH\<close> turn a
  throw into \<open>E_OUTOFMEMORY\<close> with the cell cleared. A dangling \<open>this\<close> has no
  behaviour.
\<close>

definition Clone ::
  "'a store \<Rightarrow> addr \<Rightarrow> addr option \<Rightarrow> bool \<Rightarrow> 'a \<Rightarrow> addr option option
     \<Rightarrow> (HRESULT \<times> addr option option \<times> 'a store) outcome" where
  "Clone h this newp ok d pInterface =
     (case h this of
        None \<Rightarrow> OutOfBounds
      | Some e \<Rightarrow>
          (if pInterface = None then Returns (E_INVALIDARG, pInterface, h)
           else
             (case new_ProfilerEnum h newp ok d (m_elements e) of
                Returns (p, h') \<Rightarrow> Returns (S_OK, Some (Some p), h')
              | Throws \<Rightarrow> Returns (E_OUTOFMEMORY, Some None, h)
              | OutOfBounds \<Rightarrow> OutOfBounds)))"

text \<open>
  A call \<open>p->m(...)\<close> of a method that works on the fields of its object: the store
  afterwards holds the new state at \<open>p\<close>.
\<close>

definition call ::
  "'a store \<Rightarrow> addr \<Rightarrow> ('a ProfilerEnum \<Rightarrow> 'r \<times> 'a ProfilerEnum) \<Rightarrow> ('r \<times> 'a store) outcome" where
  "call h p m =
     (case h p of
        None \<Rightarrow> OutOfBounds
      | Some e \<Rightarrow> (case m e of (r, e') \<Rightarrow> Returns (r, h(p \<mapsto> e'))))"

subsection \<open>The invariant\<close>

text \<open>What the \<open>_ASSERTE\<close> lines of \<open>Next\<close> say: the cursor is not past the end.\<close>

definition cursor_in_range :: "'a ProfilerEnum \<Rightarrow> bool" where
  "cursor_in_range e = (unat (m_currentElement e) \<le> length (m_elements e))"

text \<open>The elements a \<open>Next\<close> call has delivered: the first \<open>n\<close> cells of the buffer.\<close>

definition delivered :: "(nat \<Rightarrow> 'a) \<Rightarrow> ULONG \<Rightarrow> 'a list" where
  "delivered buf n = map buf [0..<unat n]"

section \<open>Auxiliary facts\<close>

declare Next_loop.simps [simp del] ctor_loop.simps [simp del]

lemma unat_inc: "(i::ULONG) < n \<Longrightarrow> unat (i + 1) = Suc (unat i)"
  by unat_arith

lemma unat_add_in_range:
  "unat (a::ULONG) + unat (b::ULONG) < 2 ^ 32 \<Longrightarrow> unat (a + b) = unat a + unat b"
  using unat_add_lem [of a b] by simp

lemma Next_loop_copies:
  "unat cur + unat n \<le> length xs \<Longrightarrow> length xs < 2 ^ 32 \<Longrightarrow> i \<le> n \<Longrightarrow>
   Next_loop xs cur n i buf =
     Returns (\<lambda>j. if unat i \<le> j \<and> j < unat n then xs ! (unat cur + j) else buf j)"
proof (induction xs cur n i buf rule: Next_loop.induct)
  case (1 xs cur n i buf)
  show ?case
  proof (cases "i < n")
    case False
    with "1.prems" have "i = n" by simp
    then show ?thesis by (subst Next_loop.simps) (auto simp: fun_eq_iff)
  next
    case True
    then have lt: "unat i < unat n" by (simp add: word_less_nat_alt)
    have inc: "unat (i + 1) = Suc (unat i)" using True by (rule unat_inc)
    have idx: "unat (cur + i) = unat cur + unat i"
      using lt "1.prems" by (intro unat_add_in_range) linarith
    have at: "CDynArray_at xs (cur + i) = Some (xs ! (unat cur + unat i))"
      using lt "1.prems" by (simp add: CDynArray_at_def idx)
    have le: "i + 1 \<le> n" using lt inc by (simp add: word_le_nat_alt)
    have IH: "Next_loop xs cur n (i + 1) (buf(unat i := xs ! (unat cur + unat i))) =
        Returns (\<lambda>j. if unat (i + 1) \<le> j \<and> j < unat n then xs ! (unat cur + j)
                      else (buf(unat i := xs ! (unat cur + unat i))) j)"
      using "1.IH" [OF True at "1.prems"(1) "1.prems"(2) le] .
    have step: "Next_loop xs cur n i buf =
        Next_loop xs cur n (i + 1) (buf(unat i := xs ! (unat cur + unat i)))"
      by (subst Next_loop.simps) (simp add: True at)
    show ?thesis
      unfolding step IH inc using lt by (auto simp: fun_eq_iff)
  qed
qed

lemma unat_Count_le: "unat (Count xs) \<le> length xs"
  by (simp add: Count_def unat_of_nat)

lemma unat_Count: "length xs < 2 ^ 32 \<Longrightarrow> unat (Count xs) = length xs"
  by (simp add: Count_def unat_of_nat)

lemma CDynArray_ok_length: "CDynArray_ok xs \<Longrightarrow> length xs < 2 ^ 32"
  by (simp add: CDynArray_ok_def)

lemma ctor_loop_copies:
  "length dst = unat count \<Longrightarrow> unat count \<le> length elements \<Longrightarrow> i \<le> count \<Longrightarrow>
   (\<forall>j < unat i. dst ! j = elements ! j) \<Longrightarrow>
   ctor_loop elements count i dst = Returns (take (unat count) elements)"
proof (induction elements count i dst rule: ctor_loop.induct)
  case (1 elements count i dst)
  show ?case
  proof (cases "i < count")
    case False
    with "1.prems" have eq: "i = count" by simp
    have "dst = take (unat count) elements"
      using "1.prems" eq by (intro nth_equalityI) auto
    then show ?thesis using False by (subst ctor_loop.simps) simp
  next
    case True
    then have lt: "unat i < unat count" by (simp add: word_less_nat_alt)
    have inc: "unat (i + 1) = Suc (unat i)" using True by (rule unat_inc)
    have at: "CDynArray_at elements i = Some (elements ! unat i)"
      using lt "1.prems" by (simp add: CDynArray_at_def)
    have set: "CDynArray_set dst i (elements ! unat i) = Some (dst[unat i := elements ! unat i])"
      using lt "1.prems" by (simp add: CDynArray_set_def)
    have le: "i + 1 \<le> count" using lt inc by (simp add: word_le_nat_alt)
    have len: "length (dst[unat i := elements ! unat i]) = unat count"
      using "1.prems" by simp
    have pre: "\<forall>j < unat (i + 1). dst[unat i := elements ! unat i] ! j = elements ! j"
      using "1.prems" lt by (auto simp: inc nth_list_update less_Suc_eq)
    have step: "ctor_loop elements count i dst =
        ctor_loop elements count (i + 1) (dst[unat i := elements ! unat i])"
      by (subst ctor_loop.simps) (simp add: True at set)
    show ?thesis
      unfolding step using "1.IH" [OF True at set len "1.prems"(2) le pre] .
  qed
qed

lemma ProfilerEnum_ctor_result:
  "ProfilerEnum_ctor ok d elements =
     (if ok then Returns \<lparr>m_currentElement = 0,
                            m_elements = take (unat (Count elements)) elements,
                            m_refCount = 1\<rparr>
      else Throws)"
proof (cases ok)
  case False
  then show ?thesis by (simp add: ProfilerEnum_ctor_def AllocateBlockThrowing_def)
next
  case True
  have "ctor_loop elements (Count elements) 0 (replicate (unat (Count elements)) d) =
      Returns (take (unat (Count elements)) elements)"
    by (rule ctor_loop_copies) (simp_all add: unat_Count_le)
  with True show ?thesis
    by (simp add: ProfilerEnum_ctor_def AllocateBlockThrowing_def)
qed

lemma ProfilerEnum_ctor_ok:
  "CDynArray_ok elements \<Longrightarrow>
   ProfilerEnum_ctor True d elements =
     Returns \<lparr>m_currentElement = 0, m_elements = elements, m_refCount = 1\<rparr>"
  using unat_Count [OF CDynArray_ok_length, of elements]
  by (simp add: ProfilerEnum_ctor_result)

lemma unat_min_word: "unat (min (a::ULONG) b) = min (unat a) (unat b)"
  by (simp add: min_def word_le_nat_alt)

lemma unat_remaining:
  "length xs < 2 ^ 32 \<Longrightarrow> unat cur \<le> length xs \<Longrightarrow>
   unat (Count xs - cur) = length xs - unat cur"
proof -
  assume len: "length xs < 2 ^ 32" and le: "unat cur \<le> length xs"
  have "cur \<le> Count xs" using le len by (simp add: word_le_nat_alt unat_Count)
  then have "unat (Count xs - cur) = unat (Count xs) - unat cur" by (rule unat_sub)
  then show ?thesis using len by (simp add: unat_Count)
qed

lemma unat_to_copy:
  "length xs < 2 ^ 32 \<Longrightarrow> unat cur \<le> length xs \<Longrightarrow>
   unat (min n (Count xs - cur)) = min (unat n) (length xs - unat cur)"
  by (simp add: unat_min_word unat_remaining)

lemma unat_advance:
  "length xs < 2 ^ 32 \<Longrightarrow> unat cur \<le> length xs \<Longrightarrow>
   unat (cur + min n (Count xs - cur)) = unat cur + min (unat n) (length xs - unat cur)"
proof -
  assume len: "length xs < 2 ^ 32" and le: "unat cur \<le> length xs"
  have m: "unat (min n (Count xs - cur)) = min (unat n) (length xs - unat cur)"
    using len le by (rule unat_to_copy)
  have "unat cur + unat (min n (Count xs - cur)) < 2 ^ 32"
    unfolding m using len le by linarith
  then show ?thesis using m by (simp add: unat_add_in_range)
qed

lemma Next_returns:
  assumes len: "length (m_elements e) < 2 ^ 32"
    and inv: "cursor_in_range e"
    and n: "n \<noteq> 0"
    and f: "fetched \<noteq> None \<or> n = 1"
  shows "Next e n (Some buf) fetched =
     Returns
       (if min n (Count (m_elements e) - m_currentElement e) < n then S_FALSE else S_OK,
        Some (\<lambda>j. if j < unat (min n (Count (m_elements e) - m_currentElement e))
                     then m_elements e ! (unat (m_currentElement e) + j) else buf j),
        (if fetched \<noteq> None then Some (min n (Count (m_elements e) - m_currentElement e))
         else None),
        e\<lparr>m_currentElement :=
             m_currentElement e + min n (Count (m_elements e) - m_currentElement e)\<rparr>)"
proof -
  let ?xs = "m_elements e" and ?cur = "m_currentElement e"
  let ?m = "min n (Count ?xs - ?cur)"
  have le: "unat ?cur \<le> length ?xs" using inv by (simp add: cursor_in_range_def)
  have m: "unat ?m = min (unat n) (length ?xs - unat ?cur)"
    using len le by (rule unat_to_copy)
  have "Next_loop ?xs ?cur ?m 0 buf =
      Returns (\<lambda>j. if unat (0::ULONG) \<le> j \<and> j < unat ?m then ?xs ! (unat ?cur + j) else buf j)"
    using len le by (intro Next_loop_copies) (simp_all add: m)
  then have loop: "Next_loop ?xs ?cur ?m 0 buf =
      Returns (\<lambda>j. if j < unat ?m then ?xs ! (unat ?cur + j) else buf j)"
    by simp
  have guard: "\<not> (fetched = None \<and> 1 < n)" using f by auto
  show ?thesis
    using n guard by (simp add: Next_def Let_def loop)
qed

section \<open>Properties\<close>

text \<open>
  C5. For every enumerator state, \<open>Next\<close> with more than one element requested and no
  fetched-count cell returns \<open>E_INVALIDARG\<close> and leaves the cursor, the backing sequence,
  the reference count and the buffer as they were.
\<close>

theorem Next_many_without_fetched_cell:
  "1 < n \<Longrightarrow> Next e n elements None = Returns (E_INVALIDARG, elements, None, e)"
  by (simp add: Next_def)

theorem Next_many_without_fetched_cell_witness:
  "(1::ULONG) < 2 \<and>
   Next \<lparr>m_currentElement = 1, m_elements = [10, 20, 30::nat], m_refCount = 1\<rparr>
        2 (Some (\<lambda>_. 0)) None =
     Returns (E_INVALIDARG, Some (\<lambda>_. 0),
              None, \<lparr>m_currentElement = 1, m_elements = [10, 20, 30], m_refCount = 1\<rparr>)"
  using Next_many_without_fetched_cell
    [of 2 "\<lparr>m_currentElement = 1, m_elements = [10, 20, 30::nat], m_refCount = 1\<rparr>"
        "Some (\<lambda>_. 0)"]
  by simp

text \<open>
  C8. For every enumerator state, \<open>Next\<close> with zero elements requested returns \<open>S_OK\<close>,
  stores 0 in the fetched-count cell when there is one, and leaves the buffer and the
  object as they were, whether or not a buffer is given.
\<close>

theorem Next_zero_requested:
  "Next e 0 elements elementsFetched =
     Returns (S_OK, elements, (case elementsFetched of None \<Rightarrow> None | Some _ \<Rightarrow> Some 0), e)"
  by (cases elementsFetched) (simp_all add: Next_def)

lemma of_nat_unat_word: "unat (w::ULONG) = k \<Longrightarrow> w = of_nat k"
  by auto

lemma delivered_window:
  "c + k \<le> length xs \<Longrightarrow> unat (n::ULONG) = k \<Longrightarrow>
   delivered (\<lambda>j. if j < k then xs ! (c + j) else buf j) n = take k (drop c xs)"
  by (auto simp: delivered_def intro!: nth_equalityI)

lemma Next_window:
  assumes ok: "CDynArray_ok (m_elements e)"
    and inv: "cursor_in_range e"
    and n: "0 < n"
  shows "let N = length (m_elements e);
             c = unat (m_currentElement e);
             k = min (unat n) (N - c);
             buf' = (\<lambda>j. if j < k then m_elements e ! (c + j) else buf j)
         in Next e n (Some buf) (Some f) =
              Returns (if k = unat n then S_OK else S_FALSE, Some buf', Some (of_nat k),
                       e\<lparr>m_currentElement := of_nat (c + k)\<rparr>)
            \<and> unat (of_nat k :: ULONG) = k
            \<and> unat (of_nat (c + k) :: ULONG) = c + k
            \<and> c + k \<le> N
            \<and> delivered buf' (of_nat k) = take k (drop c (m_elements e))"
proof -
  let ?xs = "m_elements e" and ?cur = "m_currentElement e"
  let ?m = "min n (Count ?xs - ?cur)"
  let ?k = "min (unat n) (length ?xs - unat ?cur)"
  have len: "length ?xs < 2 ^ 32" using ok by (rule CDynArray_ok_length)
  have le: "unat ?cur \<le> length ?xs" using inv by (simp add: cursor_in_range_def)
  have m: "unat ?m = ?k" using len le by (rule unat_to_copy)
  have adv: "unat (?cur + ?m) = unat ?cur + ?k" using len le by (rule unat_advance)
  have m_eq: "?m = of_nat ?k" using m by (rule of_nat_unat_word)
  have adv_eq: "?cur + ?m = of_nat (unat ?cur + ?k)" using adv by (rule of_nat_unat_word)
  have hr: "(?m < n) = (?k \<noteq> unat n)"
    unfolding word_less_nat_alt m by auto
  have bound: "unat ?cur + ?k \<le> length ?xs" using le by simp
  have call: "Next e n (Some buf) (Some f) =
     Returns (if ?m < n then S_FALSE else S_OK,
        Some (\<lambda>j. if j < unat ?m then ?xs ! (unat ?cur + j) else buf j),
        Some ?m, e\<lparr>m_currentElement := ?cur + ?m\<rparr>)"
    using Next_returns [OF len inv, of n "Some f" buf] n by simp
  have call': "Next e n (Some buf) (Some f) =
     Returns (if ?k = unat n then S_OK else S_FALSE,
        Some (\<lambda>j. if j < ?k then ?xs ! (unat ?cur + j) else buf j),
        Some (of_nat ?k), e\<lparr>m_currentElement := of_nat (unat ?cur + ?k)\<rparr>)"
    unfolding call hr m using m_eq adv_eq by simp
  have u1: "unat (of_nat ?k :: ULONG) = ?k" using m m_eq by simp
  have u2: "unat (of_nat (unat ?cur + ?k) :: ULONG) = unat ?cur + ?k" using adv adv_eq by simp
  have d: "delivered (\<lambda>j. if j < ?k then ?xs ! (unat ?cur + j) else buf j) (of_nat ?k)
      = take ?k (drop (unat ?cur) ?xs)"
    using bound u1 by (rule delivered_window)
  show ?thesis
    unfolding Let_def using call' u1 u2 bound d by blast
qed

text \<open>
  C1. For an enumerator over a sequence of length \<open>N\<close> with cursor \<open>c\<close>, a call of
  \<open>Next\<close> with a positive request \<open>n\<close>, a buffer and a fetched-count cell copies exactly
  \<open>k = min n (N - c)\<close> elements, the elements \<open>c, c + 1, ...\<close> of the sequence in that
  order, into the first \<open>k\<close> cells of the buffer and leaves the other cells alone; it
  moves the cursor to \<open>c + k\<close>, stores \<open>k\<close> in the fetched-count cell, and returns
  \<open>S_OK\<close> when \<open>k = n\<close> and \<open>S_FALSE\<close> otherwise (so \<open>S_FALSE\<close> with 0 fetched when
  the cursor is at the end).
\<close>

theorem Next_copies_min:
  assumes ok: "CDynArray_ok (m_elements e)"
    and inv: "cursor_in_range e"
    and n: "0 < n"
  shows "let N = length (m_elements e);
             c = unat (m_currentElement e);
             k = min (unat n) (N - c);
             buf' = (\<lambda>j. if j < k then m_elements e ! (c + j) else buf j)
         in Next e n (Some buf) (Some f) =
              Returns (if k = unat n then S_OK else S_FALSE, Some buf', Some (of_nat k),
                       e\<lparr>m_currentElement := of_nat (c + k)\<rparr>)
            \<and> unat (of_nat k :: ULONG) = k
            \<and> unat (of_nat (c + k) :: ULONG) = c + k
            \<and> c + k \<le> N
            \<and> delivered buf' (of_nat k) = take k (drop c (m_elements e))"
  using ok inv n by (rule Next_window)

theorem Next_copies_min_witness:
  "CDynArray_ok ''ABCDE'' \<and>
   cursor_in_range \<lparr>m_currentElement = 0, m_elements = ''ABCDE'', m_refCount = 1\<rparr> \<and>
   (0::ULONG) < 3 \<and>
   Next \<lparr>m_currentElement = 0, m_elements = ''ABCDE'', m_refCount = 1\<rparr>
        3 (Some (\<lambda>_. CHR ''-'')) (Some 0) =
     Returns (S_OK, Some (\<lambda>j. if j < 3 then ''ABCDE'' ! j else CHR ''-''), Some 3,
              \<lparr>m_currentElement = 3, m_elements = ''ABCDE'', m_refCount = 1\<rparr>) \<and>
   delivered (\<lambda>j. if j < 3 then ''ABCDE'' ! j else CHR ''-'') 3 = ''ABC'' \<and>
   Next \<lparr>m_currentElement = 3, m_elements = ''ABCDE'', m_refCount = 1\<rparr>
        10 (Some (\<lambda>_. CHR ''-'')) (Some 0) =
     Returns (S_FALSE, Some (\<lambda>j. if j < 2 then ''ABCDE'' ! (3 + j) else CHR ''-''), Some 2,
              \<lparr>m_currentElement = 5, m_elements = ''ABCDE'', m_refCount = 1\<rparr>) \<and>
   delivered (\<lambda>j. if j < 2 then ''ABCDE'' ! (3 + j) else CHR ''-'') 2 = ''DE'' \<and>
   Next \<lparr>m_currentElement = 5, m_elements = ''ABCDE'', m_refCount = 1\<rparr>
        1 (Some (\<lambda>_. CHR ''-'')) (Some 0) =
     Returns (S_FALSE, Some (\<lambda>_. CHR ''-''), Some 0,
              \<lparr>m_currentElement = 5, m_elements = ''ABCDE'', m_refCount = 1\<rparr>)"
proof -
  have ok: "CDynArray_ok ''ABCDE''" by (simp add: CDynArray_ok_def)
  have inv0: "cursor_in_range \<lparr>m_currentElement = 0, m_elements = ''ABCDE'', m_refCount = 1\<rparr>"
    and inv3: "cursor_in_range \<lparr>m_currentElement = 3, m_elements = ''ABCDE'', m_refCount = 1\<rparr>"
    and inv5: "cursor_in_range \<lparr>m_currentElement = 5, m_elements = ''ABCDE'', m_refCount = 1\<rparr>"
    by (simp_all add: cursor_in_range_def)
  have n: "(0::ULONG) < 3" by simp
  have 1: "Next \<lparr>m_currentElement = 0, m_elements = ''ABCDE'', m_refCount = 1\<rparr>
        3 (Some (\<lambda>_. CHR ''-'')) (Some 0) =
     Returns (S_OK, Some (\<lambda>j. if j < 3 then ''ABCDE'' ! j else CHR ''-''), Some 3,
              \<lparr>m_currentElement = 3, m_elements = ''ABCDE'', m_refCount = 1\<rparr>)"
    using ok inv0
      Next_copies_min
        [of "\<lparr>m_currentElement = 0, m_elements = ''ABCDE'', m_refCount = 1\<rparr>"
            3 "\<lambda>_. CHR ''-''" 0]
    by (auto simp: Let_def fun_eq_iff)
  have 2: "Next \<lparr>m_currentElement = 3, m_elements = ''ABCDE'', m_refCount = 1\<rparr>
        10 (Some (\<lambda>_. CHR ''-'')) (Some 0) =
     Returns (S_FALSE, Some (\<lambda>j. if j < 2 then ''ABCDE'' ! (3 + j) else CHR ''-''), Some 2,
              \<lparr>m_currentElement = 5, m_elements = ''ABCDE'', m_refCount = 1\<rparr>)"
    using ok inv3
      Next_copies_min
        [of "\<lparr>m_currentElement = 3, m_elements = ''ABCDE'', m_refCount = 1\<rparr>"
            10 "\<lambda>_. CHR ''-''" 0]
    by (auto simp: Let_def fun_eq_iff)
  have 3: "Next \<lparr>m_currentElement = 5, m_elements = ''ABCDE'', m_refCount = 1\<rparr>
        1 (Some (\<lambda>_. CHR ''-'')) (Some 0) =
     Returns (S_FALSE, Some (\<lambda>_. CHR ''-''), Some 0,
              \<lparr>m_currentElement = 5, m_elements = ''ABCDE'', m_refCount = 1\<rparr>)"
    using ok inv5
      Next_copies_min
        [of "\<lparr>m_currentElement = 5, m_elements = ''ABCDE'', m_refCount = 1\<rparr>"
            1 "\<lambda>_. CHR ''-''" 0]
    by (auto simp: Let_def fun_eq_iff)
  have d1: "delivered (\<lambda>j. if j < 3 then ''ABCDE'' ! j else CHR ''-'') 3 = ''ABC''"
    by (simp add: delivered_def upt_rec)
  have d2: "delivered (\<lambda>j. if j < 2 then ''ABCDE'' ! (3 + j) else CHR ''-'') 2 = ''DE''"
    by (simp add: delivered_def upt_rec)
  show ?thesis
    using ok inv0 n 1 d1 2 d2 3 by blast
qed

lemma Next_any_count:
  assumes ok: "CDynArray_ok (m_elements e)"
    and inv: "cursor_in_range e"
  shows "\<exists>hr b. Next e n (Some buf) (Some f) =
           Returns (hr, Some b,
                    Some (of_nat (min (unat n) (length (m_elements e) - unat (m_currentElement e)))),
                    e\<lparr>m_currentElement :=
                         of_nat (unat (m_currentElement e) +
                                 min (unat n) (length (m_elements e) - unat (m_currentElement e)))\<rparr>)
         \<and> delivered b
              (of_nat (min (unat n) (length (m_elements e) - unat (m_currentElement e))))
            = take (min (unat n) (length (m_elements e) - unat (m_currentElement e)))
                (drop (unat (m_currentElement e)) (m_elements e))"
proof (cases "n = 0")
  case True
  have "Next e 0 (Some buf) (Some f) = Returns (S_OK, Some buf, Some 0, e)"
    by (simp add: Next_def)
  then show ?thesis using True by (simp add: delivered_def)
next
  case False
  then have "0 < n" by (simp add: word_greater_zero_iff)
  from Next_window [OF ok inv this, of buf f] show ?thesis
    unfolding Let_def by blast
qed

text \<open>
  C4. For a sequence of length \<open>N\<close> and a split point \<open>k \<le> N\<close>, starting from cursor 0,
  \<open>Next(k)\<close> followed by \<open>Next(N - k)\<close> delivers, concatenated, the same elements in the
  same order as one call \<open>Next(N)\<close> from cursor 0: the whole sequence.
\<close>

theorem Next_split:
  assumes ok: "CDynArray_ok (m_elements e)"
    and c0: "m_currentElement e = 0"
    and k: "k \<le> Count (m_elements e)"
  shows "\<exists>hr1 b1 e1 hr2 b2 e2 hr3 b3 e3.
     Next e k (Some buf1) (Some f1) = Returns (hr1, Some b1, Some k, e1) \<and>
     Next e1 (Count (m_elements e) - k) (Some buf2) (Some f2) =
       Returns (hr2, Some b2, Some (Count (m_elements e) - k), e2) \<and>
     Next e (Count (m_elements e)) (Some buf3) (Some f3) =
       Returns (hr3, Some b3, Some (Count (m_elements e)), e3) \<and>
     delivered b1 k @ delivered b2 (Count (m_elements e) - k) =
       delivered b3 (Count (m_elements e)) \<and>
     delivered b3 (Count (m_elements e)) = m_elements e \<and>
     e2 = e3"
proof -
  let ?xs = "m_elements e"
  let ?N = "length ?xs"
  let ?e1 = "e\<lparr>m_currentElement := k\<rparr>"
  have len: "?N < 2 ^ 32" using ok by (rule CDynArray_ok_length)
  have cnt: "unat (Count ?xs) = ?N" using len by (rule unat_Count)
  have kN: "unat k \<le> ?N" using k cnt by (simp add: word_le_nat_alt)
  have rest: "unat (Count ?xs - k) = ?N - unat k"
    using len kN by (rule unat_remaining)
  have inv0: "cursor_in_range e" by (simp add: cursor_in_range_def c0)
  have inv1: "cursor_in_range ?e1" using kN by (simp add: cursor_in_range_def)
  have ok1: "CDynArray_ok (m_elements ?e1)" using ok by simp
  have N_eq: "(of_nat ?N :: ULONG) = Count ?xs" by (simp add: Count_def)
  have rest_eq: "(of_nat (?N - unat k) :: ULONG) = Count ?xs - k"
    using rest by (metis of_nat_unat_word)
  obtain hr1 b1 where 1: "Next e k (Some buf1) (Some f1) = Returns (hr1, Some b1, Some k, ?e1)"
    and d1: "delivered b1 k = take (unat k) ?xs"
    using Next_any_count [OF ok inv0, of k buf1 f1] kN by (auto simp: c0 min_absorb1)
  obtain hr2 b2 where 2: "Next ?e1 (Count ?xs - k) (Some buf2) (Some f2) =
        Returns (hr2, Some b2, Some (Count ?xs - k), e\<lparr>m_currentElement := Count ?xs\<rparr>)"
    and d2: "delivered b2 (Count ?xs - k) = drop (unat k) ?xs"
    using Next_any_count [OF ok1 inv1, of "Count ?xs - k" buf2 f2] kN
    by (auto simp: rest rest_eq N_eq)
  obtain hr3 b3 where 3: "Next e (Count ?xs) (Some buf3) (Some f3) =
        Returns (hr3, Some b3, Some (Count ?xs), e\<lparr>m_currentElement := Count ?xs\<rparr>)"
    and d3: "delivered b3 (Count ?xs) = ?xs"
    using Next_any_count [OF ok inv0, of "Count ?xs" buf3 f3]
    by (auto simp: c0 cnt N_eq)
  have "delivered b1 k @ delivered b2 (Count ?xs - k) = delivered b3 (Count ?xs)"
    by (simp add: d1 d2 d3)
  with 1 2 3 d3 show ?thesis by blast
qed

theorem Next_split_witness:
  "CDynArray_ok [10, 20, 30, 40, 50::nat] \<and>
   (2::ULONG) \<le> Count [10, 20, 30, 40, 50::nat] \<and>
   (\<exists>hr1 b1 e1 hr2 b2 e2 hr3 b3 e3.
      Next \<lparr>m_currentElement = 0, m_elements = [10, 20, 30, 40, 50::nat], m_refCount = 1\<rparr>
           2 (Some (\<lambda>_. 0)) (Some 0) = Returns (hr1, Some b1, Some 2, e1) \<and>
      Next e1 3 (Some (\<lambda>_. 0)) (Some 0) = Returns (hr2, Some b2, Some 3, e2) \<and>
      Next \<lparr>m_currentElement = 0, m_elements = [10, 20, 30, 40, 50::nat], m_refCount = 1\<rparr>
           5 (Some (\<lambda>_. 0)) (Some 0) = Returns (hr3, Some b3, Some 5, e3) \<and>
      delivered b1 2 @ delivered b2 3 = delivered b3 5 \<and>
      delivered b3 5 = [10, 20, 30, 40, 50] \<and>
      e2 = e3)"
proof -
  have ok: "CDynArray_ok [10, 20, 30, 40, 50::nat]" by (simp add: CDynArray_ok_def)
  have cnt: "Count [10, 20, 30, 40, 50::nat] = 5" by (simp add: Count_def)
  have k: "(2::ULONG) \<le> Count [10, 20, 30, 40, 50::nat]" by (simp add: cnt)
  show ?thesis
    using ok k
      Next_split
        [of "\<lparr>m_currentElement = 0, m_elements = [10, 20, 30, 40, 50::nat], m_refCount = 1\<rparr>"
            2 "\<lambda>_. 0" 0 "\<lambda>_. 0" 0 "\<lambda>_. 0" 0]
    by (simp add: cnt)
qed

lemma GetCount_value:
  assumes ok: "CDynArray_ok (m_elements e)"
    and inv: "cursor_in_range e"
  shows "GetCount e (Some old) =
           (S_OK, Some (of_nat (length (m_elements e) - unat (m_currentElement e))), e)"
    and "unat (of_nat (length (m_elements e) - unat (m_currentElement e)) :: ULONG) =
           length (m_elements e) - unat (m_currentElement e)"
proof -
  have len: "length (m_elements e) < 2 ^ 32" using ok by (rule CDynArray_ok_length)
  have le: "unat (m_currentElement e) \<le> length (m_elements e)"
    using inv by (simp add: cursor_in_range_def)
  have r: "unat (Count (m_elements e) - m_currentElement e) =
      length (m_elements e) - unat (m_currentElement e)"
    using len le by (rule unat_remaining)
  then have eq: "Count (m_elements e) - m_currentElement e =
      of_nat (length (m_elements e) - unat (m_currentElement e))"
    by (rule of_nat_unat_word)
  show "GetCount e (Some old) =
           (S_OK, Some (of_nat (length (m_elements e) - unat (m_currentElement e))), e)"
    by (simp add: GetCount_def eq)
  show "unat (of_nat (length (m_elements e) - unat (m_currentElement e)) :: ULONG) =
           length (m_elements e) - unat (m_currentElement e)"
    using r eq by simp
qed

lemma Skip_value:
  assumes ok: "CDynArray_ok (m_elements e)"
    and inv: "cursor_in_range e"
  shows "Skip e m =
           (if min (unat m) (length (m_elements e) - unat (m_currentElement e)) = unat m
            then S_OK else S_FALSE,
            e\<lparr>m_currentElement :=
                 of_nat (unat (m_currentElement e) +
                         min (unat m) (length (m_elements e) - unat (m_currentElement e)))\<rparr>)"
    and "unat (of_nat (unat (m_currentElement e) +
                 min (unat m) (length (m_elements e) - unat (m_currentElement e))) :: ULONG) =
           unat (m_currentElement e) +
             min (unat m) (length (m_elements e) - unat (m_currentElement e))"
proof -
  let ?xs = "m_elements e" and ?cur = "m_currentElement e"
  let ?s = "min m (Count ?xs - ?cur)"
  let ?k = "min (unat m) (length ?xs - unat ?cur)"
  have len: "length ?xs < 2 ^ 32" using ok by (rule CDynArray_ok_length)
  have le: "unat ?cur \<le> length ?xs" using inv by (simp add: cursor_in_range_def)
  have s: "unat ?s = ?k" using len le by (rule unat_to_copy)
  have adv: "unat (?cur + ?s) = unat ?cur + ?k" using len le by (rule unat_advance)
  then have adv_eq: "?cur + ?s = of_nat (unat ?cur + ?k)" by (rule of_nat_unat_word)
  have hr: "(?s < m) = (?k \<noteq> unat m)"
    unfolding word_less_nat_alt s by auto
  show "Skip e m = (if ?k = unat m then S_OK else S_FALSE,
            e\<lparr>m_currentElement := of_nat (unat ?cur + ?k)\<rparr>)"
    unfolding Skip_def Let_def hr adv_eq by simp
  show "unat (of_nat (unat ?cur + ?k) :: ULONG) = unat ?cur + ?k"
    using adv adv_eq by simp
qed

lemma int_clamped_rest: "int (N - min a N) = max 0 (int N - int a)"
  by (simp add: min_def max_def)

lemma Skip_no_error: "fst (Skip e m) = S_OK \<or> fst (Skip e m) = S_FALSE"
  by (simp add: Skip_def Let_def)

text \<open>
  C6. For an enumerator over a sequence of length \<open>N\<close> with cursor \<open>c\<close> and every count
  \<open>m\<close>, \<open>Skip(m)\<close> moves the cursor forward by exactly \<open>k = min m (N - c)\<close> and returns
  \<open>S_OK\<close> when \<open>k = m\<close> and \<open>S_FALSE\<close> otherwise; it returns no error code for any
  \<open>m\<close>. From cursor 0, \<open>Skip(m)\<close> followed by \<open>GetCount\<close> yields \<open>max 0 (N - m)\<close>.
\<close>

theorem Skip_clamps:
  "(fst (Skip e m) = S_OK \<or> fst (Skip e m) = S_FALSE) \<and>
   (CDynArray_ok (m_elements e) \<and> cursor_in_range e \<longrightarrow>
     (let N = length (m_elements e);
          c = unat (m_currentElement e);
          k = min (unat m) (N - c)
      in Skip e m =
           (if k = unat m then S_OK else S_FALSE, e\<lparr>m_currentElement := of_nat (c + k)\<rparr>)
         \<and> unat (of_nat (c + k) :: ULONG) = c + k
         \<and> (c = 0 \<longrightarrow>
              (\<exists>r. GetCount (snd (Skip e m)) (Some old) = (S_OK, Some r, snd (Skip e m))
                 \<and> int (unat r) = max 0 (int N - int (unat m))))))"
proof (intro conjI impI)
  show "fst (Skip e m) = S_OK \<or> fst (Skip e m) = S_FALSE" by (rule Skip_no_error)
next
  assume a: "CDynArray_ok (m_elements e) \<and> cursor_in_range e"
  then have ok: "CDynArray_ok (m_elements e)" and inv: "cursor_in_range e" by simp_all
  let ?N = "length (m_elements e)" and ?c = "unat (m_currentElement e)"
  let ?k = "min (unat m) (?N - ?c)"
  let ?e' = "e\<lparr>m_currentElement := of_nat (?c + ?k)\<rparr>"
  note sk = Skip_value [OF ok inv, of m]
  have le: "?c \<le> ?N" using inv by (simp add: cursor_in_range_def)
  have ok': "CDynArray_ok (m_elements ?e')" using ok by simp
  have inv': "cursor_in_range ?e'" using sk(2) le by (simp add: cursor_in_range_def)
  have after: "?c = 0 \<Longrightarrow>
      \<exists>r. GetCount (snd (Skip e m)) (Some old) = (S_OK, Some r, snd (Skip e m))
          \<and> int (unat r) = max 0 (int ?N - int (unat m))"
  proof -
    assume c0: "?c = 0"
    have cur': "unat (m_currentElement ?e') = min (unat m) ?N" using sk(2) c0 by simp
    define r :: ULONG
      where "r = of_nat (length (m_elements ?e') - unat (m_currentElement ?e'))"
    have g: "GetCount ?e' (Some old) = (S_OK, Some r, ?e')"
      unfolding r_def using ok' inv' by (rule GetCount_value(1))
    have "unat r = length (m_elements ?e') - unat (m_currentElement ?e')"
      unfolding r_def using ok' inv' by (rule GetCount_value(2))
    then have "unat r = ?N - min (unat m) ?N" unfolding cur' by simp
    then have u: "int (unat r) = max 0 (int ?N - int (unat m))"
      by (simp only: int_clamped_rest)
    have sk': "snd (Skip e m) = ?e'" unfolding sk(1) by simp
    show ?thesis unfolding sk' using g u by blast
  qed
  show "let N = ?N; c = ?c; k = min (unat m) (N - c)
      in Skip e m =
           (if k = unat m then S_OK else S_FALSE, e\<lparr>m_currentElement := of_nat (c + k)\<rparr>)
         \<and> unat (of_nat (c + k) :: ULONG) = c + k
         \<and> (c = 0 \<longrightarrow>
              (\<exists>r. GetCount (snd (Skip e m)) (Some old) = (S_OK, Some r, snd (Skip e m))
                 \<and> int (unat r) = max 0 (int N - int (unat m))))"
    unfolding Let_def using sk after by blast
qed

theorem Skip_clamps_witness:
  "CDynArray_ok [10, 20, 30, 40, 50::nat] \<and>
   cursor_in_range \<lparr>m_currentElement = 0, m_elements = [10, 20, 30, 40, 50::nat], m_refCount = 1\<rparr> \<and>
   Skip \<lparr>m_currentElement = 0, m_elements = [10, 20, 30, 40, 50::nat], m_refCount = 1\<rparr> 7 =
     (S_FALSE, \<lparr>m_currentElement = 5, m_elements = [10, 20, 30, 40, 50], m_refCount = 1\<rparr>) \<and>
   (\<exists>r. GetCount \<lparr>m_currentElement = 5, m_elements = [10, 20, 30, 40, 50::nat], m_refCount = 1\<rparr>
             (Some 9) =
           (S_OK, Some r, \<lparr>m_currentElement = 5, m_elements = [10, 20, 30, 40, 50], m_refCount = 1\<rparr>)
       \<and> int (unat r) = max 0 (5 - 7))"
proof -
  have ok: "CDynArray_ok [10, 20, 30, 40, 50::nat]" by (simp add: CDynArray_ok_def)
  have inv: "cursor_in_range
      \<lparr>m_currentElement = 0, m_elements = [10, 20, 30, 40, 50::nat], m_refCount = 1\<rparr>"
    by (simp add: cursor_in_range_def)
  show ?thesis
    using ok inv
      Skip_clamps
        [of "\<lparr>m_currentElement = 0, m_elements = [10, 20, 30, 40, 50::nat], m_refCount = 1\<rparr>"
            7 9]
    by (auto simp: Let_def)
qed

text \<open>
  C7. \<open>GetCount\<close> returns \<open>E_INVALIDARG\<close> when its out-cell is absent; otherwise it
  returns \<open>S_OK\<close> and stores \<open>N - cursor\<close>, the number of elements that remain. An
  enumerator just constructed from a sequence of length \<open>N\<close> reports \<open>N\<close>.
\<close>

theorem GetCount_remaining:
  "GetCount e None = (E_INVALIDARG, None, e) \<and>
   (CDynArray_ok (m_elements e) \<and> cursor_in_range e \<longrightarrow>
      GetCount e (Some old) =
        (S_OK, Some (of_nat (length (m_elements e) - unat (m_currentElement e))), e) \<and>
      unat (of_nat (length (m_elements e) - unat (m_currentElement e)) :: ULONG) =
        length (m_elements e) - unat (m_currentElement e)) \<and>
   (CDynArray_ok src \<longrightarrow>
      (\<exists>e0. ProfilerEnum_ctor True d src = Returns e0 \<and>
            GetCount e0 (Some old) = (S_OK, Some (of_nat (length src)), e0) \<and>
            unat (of_nat (length src) :: ULONG) = length src))"
proof (intro conjI impI)
  show "GetCount e None = (E_INVALIDARG, None, e)" by (simp add: GetCount_def)
next
  assume "CDynArray_ok (m_elements e) \<and> cursor_in_range e"
  then have ok: "CDynArray_ok (m_elements e)" and inv: "cursor_in_range e" by simp_all
  show "GetCount e (Some old) =
        (S_OK, Some (of_nat (length (m_elements e) - unat (m_currentElement e))), e)"
    using ok inv by (rule GetCount_value(1))
  show "unat (of_nat (length (m_elements e) - unat (m_currentElement e)) :: ULONG) =
        length (m_elements e) - unat (m_currentElement e)"
    using ok inv by (rule GetCount_value(2))
next
  assume ok: "CDynArray_ok src"
  let ?e0 = "\<lparr>m_currentElement = 0, m_elements = src, m_refCount = 1\<rparr>"
  have c: "ProfilerEnum_ctor True d src = Returns ?e0" using ok by (rule ProfilerEnum_ctor_ok)
  have ok0: "CDynArray_ok (m_elements ?e0)" using ok by simp
  have inv0: "cursor_in_range ?e0" by (simp add: cursor_in_range_def)
  have g: "GetCount ?e0 (Some old) = (S_OK, Some (of_nat (length src)), ?e0)"
    using GetCount_value(1) [OF ok0 inv0, of old] by simp
  have u: "unat (of_nat (length src) :: ULONG) = length src"
    using GetCount_value(2) [OF ok0 inv0] by simp
  show "\<exists>e0. ProfilerEnum_ctor True d src = Returns e0 \<and>
            GetCount e0 (Some old) = (S_OK, Some (of_nat (length src)), e0) \<and>
            unat (of_nat (length src) :: ULONG) = length src"
    using c g u by blast
qed

theorem GetCount_remaining_witness:
  "CDynArray_ok [10, 20, 30, 40, 50::nat] \<and>
   cursor_in_range \<lparr>m_currentElement = 2, m_elements = [10, 20, 30, 40, 50::nat], m_refCount = 1\<rparr> \<and>
   GetCount \<lparr>m_currentElement = 2, m_elements = [10, 20, 30, 40, 50::nat], m_refCount = 1\<rparr>
     (Some 9) =
     (S_OK, Some 3, \<lparr>m_currentElement = 2, m_elements = [10, 20, 30, 40, 50], m_refCount = 1\<rparr>) \<and>
   (\<exists>e0. ProfilerEnum_ctor True 0 [10, 20, 30, 40, 50::nat] = Returns e0 \<and>
         GetCount e0 (Some 9) = (S_OK, Some 5, e0))"
proof -
  have ok: "CDynArray_ok [10, 20, 30, 40, 50::nat]" by (simp add: CDynArray_ok_def)
  have inv: "cursor_in_range
      \<lparr>m_currentElement = 2, m_elements = [10, 20, 30, 40, 50::nat], m_refCount = 1\<rparr>"
    by (simp add: cursor_in_range_def)
  show ?thesis
    using ok inv
      GetCount_remaining
        [of "\<lparr>m_currentElement = 2, m_elements = [10, 20, 30, 40, 50::nat], m_refCount = 1\<rparr>"
            9 "[10, 20, 30, 40, 50::nat]" 0]
    by simp
qed

text \<open>
  C2, as the code has it. \<open>QueryInterface\<close> succeeds exactly when the identifier is the
  enumerator's own or \<open>IID_IUnknown\<close>; it then stores the object's address in the
  out-cell and increments the reference count. For every other identifier it returns
  \<open>E_NOINTERFACE\<close>, leaves the object alone and stores \<open>NULL\<close> in the out-cell.
\<close>

theorem QueryInterface_result:
  "QueryInterface pEnumInterfaceIID IID_IUnknown this e i pInterface =
     (if i = pEnumInterfaceIID \<or> i = IID_IUnknown
      then (S_OK, Some this, e\<lparr>m_refCount := m_refCount e + 1\<rparr>)
      else (E_NOINTERFACE, None, e))"
  by (auto simp: QueryInterface_def AddRef_def Let_def)

text \<open>
  C2, as the claim states it, fails: a cell that holds the address 9 before a query for an
  unsupported identifier holds \<open>NULL\<close> after it.
\<close>

theorem QueryInterface_overwrites_cell:
  "fst (QueryInterface (1::nat) 0 7
          \<lparr>m_currentElement = 0, m_elements = [10, 20::nat], m_refCount = 1\<rparr> 2 (Some 9))
     = E_NOINTERFACE \<and>
   fst (snd (QueryInterface (1::nat) 0 7
          \<lparr>m_currentElement = 0, m_elements = [10, 20::nat], m_refCount = 1\<rparr> 2 (Some 9)))
     \<noteq> Some 9"
  by (simp add: QueryInterface_def)

text \<open>
  C10. \<open>Clone\<close> with a \<open>NULL\<close> out-pointer returns \<open>E_INVALIDARG\<close>; the store is the same
  afterwards: nothing is allocated, and the source keeps its cursor, sequence and
  reference count.
\<close>

theorem Clone_null_handle:
  "h this = Some e \<Longrightarrow> Clone h this newp ok d None = Returns (E_INVALIDARG, None, h)"
  by (simp add: Clone_def)

theorem Clone_null_handle_witness:
  "[0::addr \<mapsto> \<lparr>m_currentElement = 2, m_elements = [10, 20, 30::nat], m_refCount = 1\<rparr>]
     (0::addr) =
     Some \<lparr>m_currentElement = 2, m_elements = [10, 20, 30::nat], m_refCount = 1\<rparr> \<and>
   Clone [0 \<mapsto> \<lparr>m_currentElement = 2, m_elements = [10, 20, 30::nat], m_refCount = 1\<rparr>]
         0 (Some 1) True 0 None =
     Returns (E_INVALIDARG, None,
              [0 \<mapsto> \<lparr>m_currentElement = 2, m_elements = [10, 20, 30::nat], m_refCount = 1\<rparr>])"
  using Clone_null_handle
    [of "[0 \<mapsto> \<lparr>m_currentElement = 2, m_elements = [10, 20, 30::nat], m_refCount = 1\<rparr>]" 0
        "\<lparr>m_currentElement = 2, m_elements = [10, 20, 30::nat], m_refCount = 1\<rparr>" "Some 1" True 0]
  by simp

lemma Clone_success:
  assumes src: "h this = Some e"
    and ok: "CDynArray_ok (m_elements e)"
  shows "Clone h this (Some p) True d (Some old) =
     Returns (S_OK, Some (Some p),
              h(p \<mapsto> \<lparr>m_currentElement = 0, m_elements = m_elements e, m_refCount = 1\<rparr>))"
  using src ProfilerEnum_ctor_ok [OF ok, of d]
  by (simp add: Clone_def new_ProfilerEnum_def)

lemma call_result:
  "h p = Some e \<Longrightarrow> call h p m = Returns (fst (m e), h(p \<mapsto> snd (m e)))"
  by (simp add: call_def split: prod.splits)

text \<open>
  C3. With a present out-cell and a successful allocation at a fresh address, \<open>Clone\<close> at
  any cursor position creates a new object whose sequence is the whole sequence of the
  source (so its \<open>GetCount\<close> yields \<open>N\<close>), whose cursor is 0 and whose reference count is
  1. The source is unchanged, and a method call on either object leaves the other as it
  is.
\<close>

theorem Clone_independent_copy:
  assumes src: "h this = Some e"
    and ok: "CDynArray_ok (m_elements e)"
    and fresh: "p \<notin> dom h"
  shows "let c = \<lparr>m_currentElement = 0, m_elements = m_elements e, m_refCount = 1\<rparr>;
             h' = h(p \<mapsto> c)
         in Clone h this (Some p) True d (Some old) = Returns (S_OK, Some (Some p), h')
            \<and> p \<noteq> this \<and> h' this = Some e \<and> h' p = Some c
            \<and> GetCount c (Some cnt) = (S_OK, Some (of_nat (length (m_elements e))), c)
            \<and> unat (of_nat (length (m_elements e)) :: ULONG) = length (m_elements e)
            \<and> (\<forall>m. call h' p m = Returns (fst (m c), h'(p \<mapsto> snd (m c))) \<and>
                     (h'(p \<mapsto> snd (m c))) this = Some e)
            \<and> (\<forall>m. call h' this m = Returns (fst (m e), h'(this \<mapsto> snd (m e))) \<and>
                     (h'(this \<mapsto> snd (m e))) p = Some c)"
proof -
  let ?c = "\<lparr>m_currentElement = 0, m_elements = m_elements e, m_refCount = 1\<rparr>"
  let ?h' = "h(p \<mapsto> ?c)"
  have ne: "p \<noteq> this" using src fresh by auto
  have 1: "Clone h this (Some p) True d (Some old) = Returns (S_OK, Some (Some p), ?h')"
    using src ok by (rule Clone_success)
  have 2: "?h' this = Some e" using ne src by simp
  have 3: "?h' p = Some ?c" by simp
  have okc: "CDynArray_ok (m_elements ?c)" using ok by simp
  have invc: "cursor_in_range ?c" by (simp add: cursor_in_range_def)
  have 4: "GetCount ?c (Some cnt) = (S_OK, Some (of_nat (length (m_elements e))), ?c)"
    using GetCount_value(1) [OF okc invc, of cnt] by simp
  have 5: "unat (of_nat (length (m_elements e)) :: ULONG) = length (m_elements e)"
    using GetCount_value(2) [OF okc invc] by simp
  have 6: "call ?h' p m = Returns (fst (m ?c), ?h'(p \<mapsto> snd (m ?c))) \<and>
      (?h'(p \<mapsto> snd (m ?c))) this = Some e"
    for m :: "'a ProfilerEnum \<Rightarrow> 'b \<times> 'a ProfilerEnum"
    using call_result [of ?h' p ?c m] ne src by simp
  have 7: "call ?h' this m = Returns (fst (m e), ?h'(this \<mapsto> snd (m e))) \<and>
      (?h'(this \<mapsto> snd (m e))) p = Some ?c"
    for m :: "'a ProfilerEnum \<Rightarrow> 'c \<times> 'a ProfilerEnum"
    using call_result [of ?h' this e m] ne src by simp
  show ?thesis
    unfolding Let_def using 1 ne 2 3 4 5 6 7 by blast
qed

theorem Clone_independent_copy_witness:
  "[0::addr \<mapsto> \<lparr>m_currentElement = 2, m_elements = [10, 20, 30::nat], m_refCount = 3\<rparr>] (0::addr) =
     Some \<lparr>m_currentElement = 2, m_elements = [10, 20, 30::nat], m_refCount = 3\<rparr> \<and>
   CDynArray_ok [10, 20, 30::nat] \<and>
   (1::addr) \<notin> dom [0::addr \<mapsto> \<lparr>m_currentElement = 2, m_elements = [10, 20, 30::nat], m_refCount = 3\<rparr>] \<and>
   Clone [0::addr \<mapsto> \<lparr>m_currentElement = 2, m_elements = [10, 20, 30::nat], m_refCount = 3\<rparr>]
         0 (Some 1) True 0 (Some None) =
     Returns (S_OK, Some (Some 1),
              [0::addr \<mapsto> \<lparr>m_currentElement = 2, m_elements = [10, 20, 30], m_refCount = 3\<rparr>,
               1 \<mapsto> \<lparr>m_currentElement = 0, m_elements = [10, 20, 30], m_refCount = 1\<rparr>]) \<and>
   GetCount \<lparr>m_currentElement = 0, m_elements = [10, 20, 30::nat], m_refCount = 1\<rparr> (Some 9) =
     (S_OK, Some 3, \<lparr>m_currentElement = 0, m_elements = [10, 20, 30], m_refCount = 1\<rparr>)"
proof -
  have src: "[0::addr \<mapsto> \<lparr>m_currentElement = 2, m_elements = [10, 20, 30::nat], m_refCount = 3\<rparr>] (0::addr) =
     Some \<lparr>m_currentElement = 2, m_elements = [10, 20, 30::nat], m_refCount = 3\<rparr>"
    by simp
  have ok: "CDynArray_ok [10, 20, 30::nat]" by (simp add: CDynArray_ok_def)
  have fresh: "(1::addr) \<notin> dom [0::addr \<mapsto> \<lparr>m_currentElement = 2, m_elements = [10, 20, 30::nat],
      m_refCount = 3\<rparr>]"
    by simp
  have ok': "CDynArray_ok
      (m_elements \<lparr>m_currentElement = 2, m_elements = [10, 20, 30::nat], m_refCount = 3\<rparr>)"
    using ok by simp
  note inst = Clone_independent_copy [OF src ok' fresh, of 0 None 9, unfolded Let_def]
  have 1: "Clone [0::addr \<mapsto> \<lparr>m_currentElement = 2, m_elements = [10, 20, 30::nat], m_refCount = 3\<rparr>]
         0 (Some 1) True 0 (Some None) =
     Returns (S_OK, Some (Some 1),
              [0::addr \<mapsto> \<lparr>m_currentElement = 2, m_elements = [10, 20, 30], m_refCount = 3\<rparr>,
               1 \<mapsto> \<lparr>m_currentElement = 0, m_elements = [10, 20, 30], m_refCount = 1\<rparr>])"
    using inst [THEN conjunct1] by simp
  have 2: "GetCount \<lparr>m_currentElement = 0, m_elements = [10, 20, 30::nat], m_refCount = 1\<rparr> (Some 9) =
     (S_OK, Some 3, \<lparr>m_currentElement = 0, m_elements = [10, 20, 30], m_refCount = 1\<rparr>)"
    using inst [THEN conjunct2, THEN conjunct2, THEN conjunct2, THEN conjunct2, THEN conjunct1]
    by simp
  show ?thesis
    using src ok fresh 1 2 by blast
qed

lemma Next_keeps_cursor_in_range:
  assumes ok: "CDynArray_ok (m_elements e)"
    and inv: "cursor_in_range e"
  shows "\<exists>hr b f e'. Next e n elements elementsFetched = Returns (hr, b, f, e') \<and>
           cursor_in_range e' \<and> m_elements e' = m_elements e"
proof -
  have len: "length (m_elements e) < 2 ^ 32" using ok by (rule CDynArray_ok_length)
  have le: "unat (m_currentElement e) \<le> length (m_elements e)"
    using inv by (simp add: cursor_in_range_def)
  consider (no_cell) "elementsFetched = None \<and> 1 < n"
    | (zero) "\<not> (elementsFetched = None \<and> 1 < n)" "n = 0"
    | (no_buffer) "\<not> (elementsFetched = None \<and> 1 < n)" "n \<noteq> 0" "elements = None"
    | (copy) buf where "\<not> (elementsFetched = None \<and> 1 < n)" "n \<noteq> 0" "elements = Some buf"
    by (cases elements) blast+
  then show ?thesis
  proof cases
    case no_cell
    then have "Next e n elements elementsFetched = Returns (E_INVALIDARG, elements, elementsFetched, e)"
      by (simp add: Next_def)
    with inv show ?thesis by blast
  next
    case zero
    then have "Next e n elements elementsFetched =
        Returns (S_OK, elements, (if elementsFetched \<noteq> None then Some 0 else None), e)"
      by (simp add: Next_def)
    with inv show ?thesis by blast
  next
    case no_buffer
    then have "Next e n elements elementsFetched = Returns (E_INVALIDARG, elements, elementsFetched, e)"
      by (simp add: Next_def)
    with inv show ?thesis by blast
  next
    case (copy buf)
    let ?m = "min n (Count (m_elements e) - m_currentElement e)"
    let ?e' = "e\<lparr>m_currentElement := m_currentElement e + ?m\<rparr>"
    from copy have f: "elementsFetched \<noteq> None \<or> n = 1" by (auto simp: word_less_nat_alt) unat_arith
    have "unat (m_currentElement e + ?m) =
        unat (m_currentElement e) + min (unat n) (length (m_elements e) - unat (m_currentElement e))"
      using len le by (rule unat_advance)
    then have "cursor_in_range ?e'" using le by (simp add: cursor_in_range_def)
    moreover have "m_elements ?e' = m_elements e" by simp
    ultimately show ?thesis
      using Next_returns [OF len inv copy(2) f, of buf] copy(3) by blast
  qed
qed

lemma Skip_keeps_cursor_in_range:
  assumes ok: "CDynArray_ok (m_elements e)"
    and inv: "cursor_in_range e"
  shows "cursor_in_range (snd (Skip e m)) \<and> m_elements (snd (Skip e m)) = m_elements e"
proof -
  have le: "unat (m_currentElement e) \<le> length (m_elements e)"
    using inv by (simp add: cursor_in_range_def)
  show ?thesis
    unfolding Skip_value(1) [OF ok inv] using Skip_value(2) [OF ok inv, of m] le
    by (simp add: cursor_in_range_def)
qed

lemma ProfilerEnum_ctor_in_range:
  "ProfilerEnum_ctor okb d src = Throws \<or>
   (\<exists>e0. ProfilerEnum_ctor okb d src = Returns e0 \<and> cursor_in_range e0)"
  by (simp add: ProfilerEnum_ctor_result cursor_in_range_def)

lemma Clone_keeps_cursor_in_range:
  assumes src: "h this = Some e"
  shows "\<exists>hr pI' h'. Clone h this newp okc d pI = Returns (hr, pI', h') \<and>
           (\<forall>q e'. h' q = Some e' \<longrightarrow> h q = Some e' \<or> cursor_in_range e')"
proof (cases "pI = None \<or> newp = None \<or> \<not> okc")
  case True
  then have "\<exists>hr pI'. Clone h this newp okc d pI = Returns (hr, pI', h)"
    using src
    by (auto simp: Clone_def new_ProfilerEnum_def ProfilerEnum_ctor_result split: option.splits)
  then show ?thesis by blast
next
  case False
  then obtain p where p: "newp = Some p" and okc: okc and pI: "pI \<noteq> None" by auto
  let ?c = "\<lparr>m_currentElement = 0,
             m_elements = take (unat (Count (m_elements e))) (m_elements e), m_refCount = 1\<rparr>"
  have "Clone h this newp okc d pI = Returns (S_OK, Some (Some p), h(p \<mapsto> ?c))"
    using src p okc pI by (simp add: Clone_def new_ProfilerEnum_def ProfilerEnum_ctor_result)
  moreover have "cursor_in_range ?c" by (simp add: cursor_in_range_def)
  ultimately show ?thesis by (auto split: if_splits)
qed

text \<open>
  C9. The cursor is never past the end of the sequence: this holds for an enumerator as
  built by either constructor, and when it holds before a call of \<open>Next\<close>, \<open>Skip\<close>,
  \<open>Reset\<close>, \<open>GetCount\<close>, \<open>Clone\<close>, \<open>QueryInterface\<close>, \<open>AddRef\<close> or \<open>Release\<close>, with
  any arguments, it holds after the call, for the object and for a clone the call has
  made. The calls return, and none of them changes the sequence.
\<close>

theorem cursor_in_range_invariant:
  assumes ok: "CDynArray_ok (m_elements e)"
    and inv: "cursor_in_range e"
    and src: "h this = Some e"
  shows "cursor_in_range (ProfilerEnum_default_ctor :: 'a ProfilerEnum) \<and>
     (ProfilerEnum_ctor okb d (elems :: 'a list) = Throws \<or>
      (\<exists>e0. ProfilerEnum_ctor okb d elems = Returns e0 \<and> cursor_in_range e0)) \<and>
     (\<exists>hr b f e'. Next e n elements elementsFetched = Returns (hr, b, f, e') \<and>
         cursor_in_range e' \<and> m_elements e' = m_elements e) \<and>
     (cursor_in_range (snd (Skip e m)) \<and> m_elements (snd (Skip e m)) = m_elements e) \<and>
     (cursor_in_range (snd (Reset e)) \<and> m_elements (snd (Reset e)) = m_elements e) \<and>
     (cursor_in_range (snd (snd (GetCount e cnt))) \<and>
        m_elements (snd (snd (GetCount e cnt))) = m_elements e) \<and>
     (\<exists>hr pI' h'. Clone h this newp okc d' pI = Returns (hr, pI', h') \<and>
         (\<forall>q e'. h' q = Some e' \<longrightarrow> h q = Some e' \<or> cursor_in_range e')) \<and>
     (cursor_in_range (snd (snd (QueryInterface iid1 iid2 this e i pInterface))) \<and>
        m_elements (snd (snd (QueryInterface iid1 iid2 this e i pInterface))) = m_elements e) \<and>
     (cursor_in_range (snd (AddRef e)) \<and> m_elements (snd (AddRef e)) = m_elements e) \<and>
     (\<forall>e'. snd (Release e) = Some e' \<longrightarrow>
         cursor_in_range e' \<and> m_elements e' = m_elements e)"
proof -
  have 1: "cursor_in_range (ProfilerEnum_default_ctor :: 'a ProfilerEnum)"
    by (simp add: ProfilerEnum_default_ctor_def cursor_in_range_def)
  have 2: "ProfilerEnum_ctor okb d elems = Throws \<or>
      (\<exists>e0. ProfilerEnum_ctor okb d elems = Returns e0 \<and> cursor_in_range e0)"
    by (rule ProfilerEnum_ctor_in_range)
  have 3: "\<exists>hr b f e'. Next e n elements elementsFetched = Returns (hr, b, f, e') \<and>
         cursor_in_range e' \<and> m_elements e' = m_elements e"
    using ok inv by (rule Next_keeps_cursor_in_range)
  have 4: "cursor_in_range (snd (Skip e m)) \<and> m_elements (snd (Skip e m)) = m_elements e"
    using ok inv by (rule Skip_keeps_cursor_in_range)
  have 5: "cursor_in_range (snd (Reset e)) \<and> m_elements (snd (Reset e)) = m_elements e"
    by (simp add: Reset_def cursor_in_range_def)
  have 6: "cursor_in_range (snd (snd (GetCount e cnt))) \<and>
        m_elements (snd (snd (GetCount e cnt))) = m_elements e"
    using inv by (simp add: GetCount_def)
  have 7: "\<exists>hr pI' h'. Clone h this newp okc d' pI = Returns (hr, pI', h') \<and>
         (\<forall>q e'. h' q = Some e' \<longrightarrow> h q = Some e' \<or> cursor_in_range e')"
    using src by (rule Clone_keeps_cursor_in_range)
  have 8: "cursor_in_range (snd (snd (QueryInterface iid1 iid2 this e i pInterface))) \<and>
        m_elements (snd (snd (QueryInterface iid1 iid2 this e i pInterface))) = m_elements e"
    using inv by (simp add: QueryInterface_def AddRef_def Let_def cursor_in_range_def)
  have 9: "cursor_in_range (snd (AddRef e)) \<and> m_elements (snd (AddRef e)) = m_elements e"
    using inv by (simp add: AddRef_def Let_def cursor_in_range_def)
  have 10: "\<forall>e'. snd (Release e) = Some e' \<longrightarrow>
         cursor_in_range e' \<and> m_elements e' = m_elements e"
    using inv by (auto simp: Release_def Let_def cursor_in_range_def split: if_splits)
  show ?thesis
    by (rule conjI [OF 1 conjI [OF 2 conjI [OF 3 conjI [OF 4 conjI [OF 5
          conjI [OF 6 conjI [OF 7 conjI [OF 8 conjI [OF 9 10]]]]]]]]])
qed

theorem cursor_in_range_invariant_witness:
  "CDynArray_ok [10, 20, 30, 40, 50::nat] \<and>
   cursor_in_range 
       \<lparr>m_currentElement = 3, m_elements = [10, 20, 30, 40, 50::nat], m_refCount = 1\<rparr> \<and>
   [0::addr \<mapsto> 
       \<lparr>m_currentElement = 3, m_elements = [10, 20, 30, 40, 50::nat], m_refCount = 1\<rparr>] (0::addr) = Some 
       \<lparr>m_currentElement = 3, m_elements = [10, 20, 30, 40, 50::nat], m_refCount = 1\<rparr> \<and>
   (\<exists>hr b f e'. Next 
       \<lparr>m_currentElement = 3, m_elements = [10, 20, 30, 40, 50::nat], m_refCount = 1\<rparr> 10 (Some (\<lambda>_. 0)) (Some 0) = Returns (hr, b, f, e') \<and>
       cursor_in_range e' \<and> m_elements e' = [10, 20, 30, 40, 50]) \<and>
   cursor_in_range (snd (Skip 
       \<lparr>m_currentElement = 3, m_elements = [10, 20, 30, 40, 50::nat], m_refCount = 1\<rparr> 10)) \<and>
   (\<exists>hr pI' h'. Clone [0::addr \<mapsto> 
       \<lparr>m_currentElement = 3, m_elements = [10, 20, 30, 40, 50::nat], m_refCount = 1\<rparr>] 0 (Some 1) True 0 (Some None) = Returns (hr, pI', h') \<and>
       (\<forall>q e'. h' q = Some e' \<longrightarrow> [0::addr \<mapsto> 
       \<lparr>m_currentElement = 3, m_elements = [10, 20, 30, 40, 50::nat], m_refCount = 1\<rparr>] q = Some e' \<or> cursor_in_range e'))"
proof -
  have ok: "CDynArray_ok [10, 20, 30, 40, 50::nat]" by (simp add: CDynArray_ok_def)
  then have ok': "CDynArray_ok (m_elements 
       \<lparr>m_currentElement = 3, m_elements = [10, 20, 30, 40, 50::nat], m_refCount = 1\<rparr>)" by simp
  have inv: "cursor_in_range 
       \<lparr>m_currentElement = 3, m_elements = [10, 20, 30, 40, 50::nat], m_refCount = 1\<rparr>" by (simp add: cursor_in_range_def)
  have src: "[0::addr \<mapsto> 
       \<lparr>m_currentElement = 3, m_elements = [10, 20, 30, 40, 50::nat], m_refCount = 1\<rparr>] (0::addr) = Some 
       \<lparr>m_currentElement = 3, m_elements = [10, 20, 30, 40, 50::nat], m_refCount = 1\<rparr>" by simp
  note inst = cursor_in_range_invariant
      [where e = "\<lparr>m_currentElement = 3, m_elements = [10, 20, 30, 40, 50::nat], m_refCount = 1\<rparr>"
         and h = "[0::addr \<mapsto> \<lparr>m_currentElement = 3, m_elements = [10, 20, 30, 40, 50::nat], m_refCount = 1\<rparr>]"
         and this = 0 and n = 10 and elements = "Some (\<lambda>_. 0)" and elementsFetched = "Some 0"
         and m = 10 and newp = "Some 1" and okc = True and d' = 0 and pI = "Some None",
       OF ok' inv src]
  have nx: "\<exists>hr b f e'. Next 
       \<lparr>m_currentElement = 3, m_elements = [10, 20, 30, 40, 50::nat], m_refCount = 1\<rparr> 10 (Some (\<lambda>_. 0)) (Some 0) = Returns (hr, b, f, e') \<and>
       cursor_in_range e' \<and> m_elements e' = [10, 20, 30, 40, 50]"
    using inst [THEN conjunct2, THEN conjunct2, THEN conjunct1]
    by simp
  have sk: "cursor_in_range (snd (Skip 
       \<lparr>m_currentElement = 3, m_elements = [10, 20, 30, 40, 50::nat], m_refCount = 1\<rparr> 10))"
    using inst [THEN conjunct2, THEN conjunct2, THEN conjunct2, THEN conjunct1]
    by simp
  have cl: "\<exists>hr pI' h'. Clone [0::addr \<mapsto> 
       \<lparr>m_currentElement = 3, m_elements = [10, 20, 30, 40, 50::nat], m_refCount = 1\<rparr>] 0 (Some 1) True 0 (Some None) = Returns (hr, pI', h') \<and>
       (\<forall>q e'. h' q = Some e' \<longrightarrow> [0::addr \<mapsto> 
       \<lparr>m_currentElement = 3, m_elements = [10, 20, 30, 40, 50::nat], m_refCount = 1\<rparr>] q = Some e' \<or> cursor_in_range e')"
    using inst [THEN conjunct2, THEN conjunct2, THEN conjunct2, THEN conjunct2, THEN conjunct2,
                THEN conjunct2, THEN conjunct1] .
  show ?thesis
    using ok inv src nx sk cl by (intro conjI)
qed

end
